theory Spec2Isabelle
  imports Main "HOL-Library.AList"
begin

section \<open>The data model of \<^verbatim>\<open>app/models.py\<close>\<close>

text \<open>
  Timestamps are opaque to the handlers: \<^verbatim>\<open>datetime.now()\<close> is read from the clock
  and only stored, so the clock's reading is an argument of every operation that reads it.
  A Python \<^verbatim>\<open>str\<close> is a \<open>string\<close> whose elements stand for its characters, a Python
  \<^verbatim>\<open>int\<close> is an \<open>int\<close>.
\<close>

type_synonym datetime = nat

text \<open>
  \<^verbatim>\<open>UserCreate\<close> (the fields of \<^verbatim>\<open>UserBase\<close>): the body of a create request, with all
  three fields required.
\<close>

record UserCreate =
  name :: string
  email :: string
  age :: int

text \<open>
  \<^verbatim>\<open>UserUpdate\<close>: every field is \<^verbatim>\<open>Optional\<close> with default \<^verbatim>\<open>None\<close>, and the
  model remembers which fields the request set. The outer \<open>option\<close> is that memory
  (\<open>None\<close>: the field was omitted), the inner one is the value (\<open>Some None\<close>: the
  request set the field to \<^verbatim>\<open>null\<close>).
\<close>

record UserUpdate =
  name :: "string option option"
  email :: "string option option"
  age :: "int option option"
  is_active :: "bool option option"

text \<open>
  \<^verbatim>\<open>User\<close>: a stored record. The model class does not validate on assignment, so
  an attribute written by \<^verbatim>\<open>setattr\<close> holds whatever \<^verbatim>\<open>UserUpdate\<close> carried,
  \<^verbatim>\<open>None\<close> included: the four assignable attributes are options. The field
  \<^verbatim>\<open>id\<close> is written \<open>id'\<close>.
\<close>

record User =
  name :: "string option"
  email :: "string option"
  age :: "int option"
  id' :: int
  created_at :: datetime
  is_active :: "bool option"

record HealthCheck =
  status :: string
  timestamp :: datetime
  version :: string

text \<open>What a handler can raise, and the response object of the delete handler.\<close>

datatype exn =
    HTTPException nat string
  | ValidationError
  | RequestValidationError

record JSONResponse =
  status_code :: nat
  content :: "(string \<times> string) list"

definition HTTP_204_NO_CONTENT :: nat where
  "HTTP_204_NO_CONTENT = 204"

definition HTTP_400_BAD_REQUEST :: nat where
  "HTTP_400_BAD_REQUEST = 400"

definition HTTP_404_NOT_FOUND :: nat where
  "HTTP_404_NOT_FOUND = 404"

text \<open>The two errors the handlers raise themselves, under the spec's names.\<close>

definition ConflictError :: exn where
  "ConflictError = HTTPException HTTP_400_BAD_REQUEST ''Email already registered''"

definition NotFoundError :: exn where
  "NotFoundError = HTTPException HTTP_404_NOT_FOUND ''User not found''"

subsection \<open>Field constraints\<close>

text \<open>
  \<^verbatim>\<open>Field(..., min_length=1, max_length=100)\<close> on \<^verbatim>\<open>name\<close> and
  \<^verbatim>\<open>Field(..., ge=0, le=150)\<close> on \<^verbatim>\<open>age\<close>; \<^verbatim>\<open>email\<close> is any \<^verbatim>\<open>str\<close>.
\<close>

definition name_ok :: "string \<Rightarrow> bool" where
  "name_ok n = (1 \<le> length n \<and> length n \<le> 100)"

definition age_ok :: "int \<Rightarrow> bool" where
  "age_ok a = (0 \<le> a \<and> a \<le> 150)"

definition UserCreate_valid :: "UserCreate \<Rightarrow> bool" where
  "UserCreate_valid u = (name_ok (UserCreate.name u) \<and> age_ok (UserCreate.age u))"

text \<open>
  In \<^verbatim>\<open>UserUpdate\<close> the same bounds apply to a value that is present; \<^verbatim>\<open>None\<close>
  satisfies an \<^verbatim>\<open>Optional\<close> field, whether defaulted or sent.
\<close>

definition UserUpdate_valid :: "UserUpdate \<Rightarrow> bool" where
  "UserUpdate_valid u =
     ((case UserUpdate.name u of Some (Some n) \<Rightarrow> name_ok n | _ \<Rightarrow> True) \<and>
      (case UserUpdate.age u of Some (Some a) \<Rightarrow> age_ok a | _ \<Rightarrow> True))"

text \<open>
  The constructor call \<^verbatim>\<open>User(id=..., name=..., ...)\<close> of \<^verbatim>\<open>create_user\<close>: the
  model validates its arguments and raises \<^verbatim>\<open>ValidationError\<close> when a constraint of
  \<^verbatim>\<open>UserBase\<close> fails.
\<close>

definition User_init ::
  "int \<Rightarrow> string \<Rightarrow> string \<Rightarrow> int \<Rightarrow> datetime \<Rightarrow> bool \<Rightarrow> exn + User" where
  "User_init i n e a t b =
     (if name_ok n \<and> age_ok a
      then Inr \<lparr>User.name = Some n, email = Some e, age = Some a, id' = i,
                created_at = t, is_active = Some b\<rparr>
      else Inl ValidationError)"

text \<open>
  The data-model constraints read on a stored record: name and email are text, the name
  within its length bounds, the age an integer within its range, the flag a boolean.
\<close>

definition User_valid :: "User \<Rightarrow> bool" where
  "User_valid x =
     ((case User.name x of None \<Rightarrow> False | Some n \<Rightarrow> name_ok n) \<and>
      User.email x \<noteq> None \<and>
      (case User.age x of None \<Rightarrow> False | Some a \<Rightarrow> age_ok a) \<and>
      User.is_active x \<noteq> None)"

section \<open>The registry of \<^verbatim>\<open>app/main.py\<close>\<close>

text \<open>
  \<^verbatim>\<open>users_db\<close> is a Python \<^verbatim>\<open>dict\<close>, which iterates in insertion order: an association
  list, oldest key first. Assigning to a key (\<open>AList.update\<close>) replaces the value in place
  when the key is there and appends otherwise; \<^verbatim>\<open>del\<close> (\<open>AList.delete\<close>) removes the
  entry and keeps the order of the rest; \<^verbatim>\<open>in\<close> and indexing are \<open>map_of\<close>.
\<close>

record registry =
  users_db :: "(int \<times> User) list"
  next_user_id :: int

definition init :: registry where
  "init = \<lparr>users_db = [], next_user_id = 1\<rparr>"

definition dict_values :: "('k \<times> 'v) list \<Rightarrow> 'v list" where
  "dict_values d = map snd d"

definition dict_keys :: "('k \<times> 'v) list \<Rightarrow> 'k list" where
  "dict_keys d = map fst d"

definition health_check :: "datetime \<Rightarrow> HealthCheck" where
  "health_check now = \<lparr>status = ''healthy'', timestamp = now, version = ''1.0.0''\<rparr>"

subsection \<open>\<^verbatim>\<open>create_user\<close>\<close>

text \<open>
  The scan \<^verbatim>\<open>for existing_user in users_db.values(): if existing_user.email == user.email: raise\<close>:
  \<open>True\<close> when the loop raises.
\<close>

fun email_registered :: "User list \<Rightarrow> string option \<Rightarrow> bool" where
  "email_registered [] e = False"
| "email_registered (existing_user # rest) e =
     (if User.email existing_user = e then True else email_registered rest e)"

text \<open>
  A handler returns its result, or the exception it raised, together with the registry as
  it left it.
\<close>

definition create_user :: "registry \<Rightarrow> UserCreate \<Rightarrow> datetime \<Rightarrow> (exn + User) \<times> registry" where
  "create_user s user now =
     (if email_registered (dict_values (users_db s)) (Some (UserCreate.email user))
      then (Inl (HTTPException HTTP_400_BAD_REQUEST ''Email already registered''), s)
      else
        (case User_init (next_user_id s) (UserCreate.name user) (UserCreate.email user)
                (UserCreate.age user) now True of
           Inl e \<Rightarrow> (Inl e, s)
         | Inr new_user \<Rightarrow>
             (Inr new_user,
              s\<lparr>users_db := AList.update (next_user_id s) new_user (users_db s),
                next_user_id := next_user_id s + 1\<rparr>)))"

subsection \<open>\<^verbatim>\<open>get_users\<close>\<close>

text \<open>
  Python's \<^verbatim>\<open>xs[start:stop]\<close> on a list of length \<open>n\<close>: a negative bound counts from
  the end, and both bounds are clipped to \<open>0..n\<close>; the slice is empty when the clipped
  stop is not beyond the clipped start.
\<close>

definition slice_bound :: "nat \<Rightarrow> int \<Rightarrow> nat" where
  "slice_bound n i = (if i < 0 then nat (max 0 (int n + i)) else min (nat i) n)"

definition py_slice :: "'a list \<Rightarrow> int \<Rightarrow> int \<Rightarrow> 'a list" where
  "py_slice xs start stop =
     (let lo = slice_bound (length xs) start; hi = slice_bound (length xs) stop
      in take (hi - lo) (drop lo xs))"

definition get_users :: "registry \<Rightarrow> int \<Rightarrow> int \<Rightarrow> User list" where
  "get_users s skip limit =
     (let users_list = dict_values (users_db s) in py_slice users_list skip (skip + limit))"

subsection \<open>\<^verbatim>\<open>get_user\<close>\<close>

definition get_user :: "registry \<Rightarrow> int \<Rightarrow> exn + User" where
  "get_user s user_id =
     (case map_of (users_db s) user_id of
        None \<Rightarrow> Inl (HTTPException HTTP_404_NOT_FOUND ''User not found'')
      | Some u \<Rightarrow> Inr u)"

subsection \<open>\<^verbatim>\<open>update_user\<close>\<close>

text \<open>
  \<^verbatim>\<open>user_update.dict(exclude_unset=True)\<close>: the fields the request set, in the order the
  model declares them, each with its value.
\<close>

datatype field =
    Name "string option"
  | Email "string option"
  | Age "int option"
  | Is_active "bool option"

definition dict_exclude_unset :: "UserUpdate \<Rightarrow> field list" where
  "dict_exclude_unset u =
     (case UserUpdate.name u of None \<Rightarrow> [] | Some v \<Rightarrow> [Name v]) @
     (case UserUpdate.email u of None \<Rightarrow> [] | Some v \<Rightarrow> [Email v]) @
     (case UserUpdate.age u of None \<Rightarrow> [] | Some v \<Rightarrow> [Age v]) @
     (case UserUpdate.is_active u of None \<Rightarrow> [] | Some v \<Rightarrow> [Is_active v])"

fun setattr :: "User \<Rightarrow> field \<Rightarrow> User" where
  "setattr x (Name v) = x\<lparr>User.name := v\<rparr>"
| "setattr x (Email v) = x\<lparr>User.email := v\<rparr>"
| "setattr x (Age v) = x\<lparr>User.age := v\<rparr>"
| "setattr x (Is_active v) = x\<lparr>User.is_active := v\<rparr>"

text \<open>
  The scan \<^verbatim>\<open>for uid, existing_user in users_db.items()\<close> of the uniqueness check:
  \<open>True\<close> when the loop raises.
\<close>

fun email_of_other :: "(int \<times> User) list \<Rightarrow> int \<Rightarrow> string option \<Rightarrow> bool" where
  "email_of_other [] user_id e = False"
| "email_of_other ((uid, existing_user) # rest) user_id e =
     (if uid \<noteq> user_id \<and> User.email existing_user = e then True
      else email_of_other rest user_id e)"

text \<open>
  \<^verbatim>\<open>current_user\<close> is the object the dictionary holds, so the \<^verbatim>\<open>setattr\<close> loop changes
  the stored record: the model writes the changed record back under its key. The
  docstring of the handler says of \<^verbatim>\<open>user_update\<close> that "only non-null fields will be
  updated"; the body takes the fields the request set, so a field set to \<^verbatim>\<open>null\<close> goes
  through the uniqueness scan and the \<^verbatim>\<open>setattr\<close> loop like any other value.
\<close>

definition update_user :: "registry \<Rightarrow> int \<Rightarrow> UserUpdate \<Rightarrow> (exn + User) \<times> registry" where
  "update_user s user_id user_update =
     (case map_of (users_db s) user_id of
        None \<Rightarrow> (Inl (HTTPException HTTP_404_NOT_FOUND ''User not found''), s)
      | Some current_user \<Rightarrow>
          (let update_data = dict_exclude_unset user_update in
           if (case UserUpdate.email user_update of
                 None \<Rightarrow> False
               | Some e \<Rightarrow> email_of_other (users_db s) user_id e)
           then (Inl (HTTPException HTTP_400_BAD_REQUEST ''Email already registered''), s)
           else
             (let updated = foldl setattr current_user update_data
              in (Inr updated, s\<lparr>users_db := AList.update user_id updated (users_db s)\<rparr>))))"

subsection \<open>\<^verbatim>\<open>delete_user\<close>\<close>

definition delete_user :: "registry \<Rightarrow> int \<Rightarrow> (exn + JSONResponse) \<times> registry" where
  "delete_user s user_id =
     (if map_of (users_db s) user_id = None
      then (Inl (HTTPException HTTP_404_NOT_FOUND ''User not found''), s)
      else
        (Inr \<lparr>status_code = HTTP_204_NO_CONTENT,
              content = [(''message'', ''User deleted successfully'')]\<rparr>,
         s\<lparr>users_db := AList.delete user_id (users_db s)\<rparr>))"

subsection \<open>Requests\<close>

text \<open>
  A request body is validated against the handler's annotated model before the handler
  runs; a body that fails is answered without the handler being called. A request is one
  of the six operations with its arguments (and the clock's reading where the handler
  reads the clock); \<open>step\<close> is the registry after serving one, \<open>run\<close> after serving a
  sequence. The health check, the listing and the lookup leave the registry as it is.
\<close>

definition post_users :: "registry \<Rightarrow> UserCreate \<Rightarrow> datetime \<Rightarrow> (exn + User) \<times> registry" where
  "post_users s body now =
     (if UserCreate_valid body then create_user s body now else (Inl RequestValidationError, s))"

definition put_user :: "registry \<Rightarrow> int \<Rightarrow> UserUpdate \<Rightarrow> (exn + User) \<times> registry" where
  "put_user s user_id body =
     (if UserUpdate_valid body then update_user s user_id body
      else (Inl RequestValidationError, s))"

datatype request =
    Health datetime
  | Create UserCreate datetime
  | List int int
  | Get int
  | Update int UserUpdate
  | Delete int

fun step :: "registry \<Rightarrow> request \<Rightarrow> registry" where
  "step s (Health now) = s"
| "step s (Create body now) = snd (post_users s body now)"
| "step s (List skip limit) = s"
| "step s (Get user_id) = s"
| "step s (Update user_id body) = snd (put_user s user_id body)"
| "step s (Delete user_id) = snd (delete_user s user_id)"

fun run :: "registry \<Rightarrow> request list \<Rightarrow> registry" where
  "run s [] = s"
| "run s (q # qs) = run (step s q) qs"

text \<open>The ids handed out by the successful creations of a sequence of requests, in order.\<close>

fun assigned_ids :: "registry \<Rightarrow> request list \<Rightarrow> int list" where
  "assigned_ids s [] = []"
| "assigned_ids s (q # qs) =
     (case q of
        Create body now \<Rightarrow>
          (case fst (post_users s body now) of Inr new_user \<Rightarrow> [User.id' new_user] | Inl e \<Rightarrow> [])
      | _ \<Rightarrow> []) @ assigned_ids (step s q) qs"

section \<open>Invariants of the registry\<close>

text \<open>
  \<open>registry_inv\<close>: what every registry reached from \<open>init\<close> satisfies. The keys of the
  table are strictly increasing in its order (so they are distinct, and the order of the
  table is the order of creation), every key is the id of its record and lies from 1 to
  below the counter, and no two records have the same email. \<open>retired i\<close>: the id \<open>i\<close> is
  below the counter and not in the table.
\<close>

definition registry_inv :: "registry \<Rightarrow> bool" where
  "registry_inv s =
     (1 \<le> next_user_id s \<and>
      sorted_wrt (<) (dict_keys (users_db s)) \<and>
      (\<forall>(k, x) \<in> set (users_db s). 1 \<le> k \<and> k < next_user_id s \<and> User.id' x = k) \<and>
      distinct (map User.email (dict_values (users_db s))))"

definition retired :: "int \<Rightarrow> registry \<Rightarrow> bool" where
  "retired i s =
     (i \<notin> set (dict_keys (users_db s)) \<and> i < next_user_id s \<and>
      (\<forall>k \<in> set (dict_keys (users_db s)). k < next_user_id s))"

section \<open>Example registries\<close>

text \<open>
  Concrete records, request bodies and registries on which the theorems below are
  evaluated: the registry after one and after two creations, three partial updates, the
  registry after the first record's email was set to null, and a run with a deletion
  between creations.
\<close>

definition john :: User where
  "john = \<lparr>User.name = Some ''John Doe'', email = Some ''john@example.com'', age = Some 30,
            id' = 1, created_at = 0, is_active = Some True\<rparr>"

definition jane :: User where
  "jane = \<lparr>User.name = Some ''Jane Smith'', email = Some ''jane@example.com'', age = Some 25,
            id' = 2, created_at = 1, is_active = Some True\<rparr>"

definition john_body :: UserCreate where
  "john_body = \<lparr>UserCreate.name = ''John Doe'', email = ''john@example.com'', age = 30\<rparr>"

definition jane_body :: UserCreate where
  "jane_body = \<lparr>UserCreate.name = ''Jane Smith'', email = ''jane@example.com'', age = 25\<rparr>"

definition db1 :: registry where
  "db1 = \<lparr>users_db = [(1, john)], next_user_id = 2\<rparr>"

definition db2 :: registry where
  "db2 = \<lparr>users_db = [(1, john), (2, jane)], next_user_id = 3\<rparr>"

definition age_only :: UserUpdate where
  "age_only = \<lparr>UserUpdate.name = None, email = None, age = Some (Some 31), is_active = None\<rparr>"

definition null_name :: UserUpdate where
  "null_name = \<lparr>UserUpdate.name = Some None, email = None, age = None, is_active = None\<rparr>"

definition null_email :: UserUpdate where
  "null_email = \<lparr>UserUpdate.name = None, email = Some None, age = None, is_active = None\<rparr>"

definition db2_null :: registry where
  "db2_null = \<lparr>users_db = [(1, john\<lparr>User.email := None\<rparr>), (2, jane)], next_user_id = 3\<rparr>"

definition bob_body :: UserCreate where
  "bob_body = \<lparr>UserCreate.name = ''Bob'', email = ''john@example.com'', age = 41\<rparr>"

definition three_creates :: "request list" where
  "three_creates = [Create john_body 0, Create jane_body 1, Delete 1, Create bob_body 2]"

section \<open>Helper lemmas\<close>

lemma db1_reachable: "run init [Create john_body 0] = db1"
  by (simp add: init_def post_users_def create_user_def UserCreate_valid_def name_ok_def
      age_ok_def User_init_def dict_values_def john_body_def db1_def john_def)

lemma db2_reachable: "run init [Create john_body 0, Create jane_body 1] = db2"
  by (simp add: init_def post_users_def create_user_def UserCreate_valid_def name_ok_def
      age_ok_def User_init_def dict_values_def john_body_def jane_body_def db2_def john_def
      jane_def)

lemma email_of_other_iff:
  "email_of_other al i e = (\<exists>(k, x) \<in> set al. k \<noteq> i \<and> User.email x = e)"
  by (induction al i e rule: email_of_other.induct) auto

lemma slice_bound_nonneg: "0 \<le> i \<Longrightarrow> slice_bound n i = min (nat i) n"
  by (simp add: slice_bound_def)

lemma py_slice_nonneg:
  assumes "0 \<le> a" and "0 \<le> b"
  shows "py_slice xs a (a + b) = take (nat b) (drop (nat a) xs)"
proof (cases "nat a \<le> length xs")
  case True
  then show ?thesis using assms
    by (auto simp: py_slice_def slice_bound_nonneg Let_def min_def nat_add_distrib)
next
  case False
  then show ?thesis using assms
    by (auto simp: py_slice_def slice_bound_nonneg Let_def min_def nat_add_distrib)
qed

lemma email_registered_iff:
  "email_registered xs e = (\<exists>x \<in> set xs. User.email x = e)"
  by (induction xs) auto

lemma foldl_setattr:
  "foldl setattr r (dict_exclude_unset u) =
     r\<lparr>User.name := (case UserUpdate.name u of None \<Rightarrow> User.name r | Some v \<Rightarrow> v),
       User.email := (case UserUpdate.email u of None \<Rightarrow> User.email r | Some v \<Rightarrow> v),
       User.age := (case UserUpdate.age u of None \<Rightarrow> User.age r | Some v \<Rightarrow> v),
       User.is_active := (case UserUpdate.is_active u of None \<Rightarrow> User.is_active r | Some v \<Rightarrow> v)\<rparr>"
  by (cases "UserUpdate.name u"; cases "UserUpdate.email u"; cases "UserUpdate.age u";
      cases "UserUpdate.is_active u"; simp add: dict_exclude_unset_def)

lemma update_user_conflict:
  assumes "map_of (users_db s) i = Some r"
    and "UserUpdate.email u = Some e" and "email_of_other (users_db s) i e"
  shows "update_user s i u = (Inl ConflictError, s)"
  using assms by (simp add: update_user_def ConflictError_def)

lemma update_user_ok:
  assumes "map_of (users_db s) i = Some r"
    and "\<And>e. UserUpdate.email u = Some e \<Longrightarrow> \<not> email_of_other (users_db s) i e"
  shows "update_user s i u =
           (Inr (foldl setattr r (dict_exclude_unset u)),
            s\<lparr>users_db := AList.update i (foldl setattr r (dict_exclude_unset u)) (users_db s)\<rparr>)"
  using assms by (cases "UserUpdate.email u") (simp_all add: update_user_def Let_def)

lemma drop_to_last: "xs \<noteq> [] \<Longrightarrow> drop (length xs - 1) xs = [last xs]"
  by (induction xs rule: rev_induct) auto

lemma update_fresh: "k \<notin> fst ` set al \<Longrightarrow> AList.update k v al = al @ [(k, v)]"
  by (induction al) auto

lemma update_present:
  assumes "distinct (map fst al)" and "map_of al k = Some v"
  shows "\<exists>ys zs. al = ys @ (k, v) # zs \<and> AList.update k v' al = ys @ (k, v') # zs \<and>
           k \<notin> fst ` set ys \<and> k \<notin> fst ` set zs"
  using assms
proof (induction al)
  case Nil
  then show ?case by simp
next
  case (Cons p al)
  show ?case
  proof (cases "fst p = k")
    case True
    then have "p = (k, v)" using Cons.prems(2) by (cases p) simp
    moreover have "k \<notin> fst ` set al" using Cons.prems(1) True by auto
    ultimately have "p # al = [] @ (k, v) # al \<and> AList.update k v' (p # al) = [] @ (k, v') # al \<and>
        k \<notin> fst ` set [] \<and> k \<notin> fst ` set al"
      by simp
    then show ?thesis by blast
  next
    case False
    then have "map_of al k = Some v" using Cons.prems(2) by (cases p) (simp split: if_splits)
    moreover have "distinct (map fst al)" using Cons.prems(1) by simp
    ultimately obtain ys zs where yz: "al = ys @ (k, v) # zs"
        "AList.update k v' al = ys @ (k, v') # zs" "k \<notin> fst ` set ys" "k \<notin> fst ` set zs"
      using Cons.IH by blast
    have "p # al = (p # ys) @ (k, v) # zs \<and>
        AList.update k v' (p # al) = (p # ys) @ (k, v') # zs \<and>
        k \<notin> fst ` set (p # ys) \<and> k \<notin> fst ` set zs"
      using yz False by (cases p) auto
    then show ?thesis by blast
  qed
qed

lemma distinct_map_replace:
  assumes "distinct (map f (ys @ x # zs))" and "\<forall>y \<in> set ys \<union> set zs. f y \<noteq> f x'"
  shows "distinct (map f (ys @ x' # zs))"
  using assms by force

lemma sorted_keys_distinct: "sorted_wrt (<) (ks :: int list) \<Longrightarrow> distinct ks"
  by (simp add: strict_sorted_iff)

lemma registry_inv_init: "registry_inv init"
  by (simp add: registry_inv_def init_def dict_keys_def dict_values_def)

lemma create_user_fail:
  "fst (create_user s body now) = Inl e \<Longrightarrow> snd (create_user s body now) = s"
  by (auto simp: create_user_def split: if_splits sum.splits)

lemma create_user_ok:
  assumes "create_user s body now = (Inr new_user, s')"
  shows "User.id' new_user = next_user_id s"
    and "next_user_id s' = next_user_id s + 1"
    and "users_db s' = AList.update (next_user_id s) new_user (users_db s)"
    and "User.email new_user = Some (UserCreate.email body)"
    and "\<not> email_registered (dict_values (users_db s)) (Some (UserCreate.email body))"
  using assms
  by (auto simp: create_user_def User_init_def split: if_splits)

lemma registry_inv_create:
  assumes "registry_inv s"
  shows "registry_inv (snd (create_user s body now))"
proof (cases "fst (create_user s body now)")
  case (Inl e)
  then show ?thesis using assms by (simp add: create_user_fail)
next
  case (Inr new_user)
  obtain s' where eq: "create_user s body now = (Inr new_user, s')"
    using Inr by (cases "create_user s body now") simp
  note ok = create_user_ok [OF eq]
  let ?n = "next_user_id s"
  have below: "\<forall>k \<in> fst ` set (users_db s). k < ?n"
    using assms by (auto simp: registry_inv_def)
  then have fresh: "?n \<notin> fst ` set (users_db s)" by auto
  have db: "users_db s' = users_db s @ [(?n, new_user)]"
    using ok(3) fresh by (simp add: update_fresh)
  have "sorted_wrt (<) (dict_keys (users_db s'))"
    using assms below by (auto simp: registry_inv_def db dict_keys_def sorted_wrt_append)
  moreover have "\<forall>(k, x) \<in> set (users_db s'). 1 \<le> k \<and> k < next_user_id s' \<and> User.id' x = k"
    using assms ok(1,2) by (auto simp: registry_inv_def db)
  moreover have "distinct (map User.email (dict_values (users_db s')))"
    using assms ok(4,5)
    by (auto simp: registry_inv_def db dict_values_def email_registered_iff)
  moreover have "1 \<le> next_user_id s'"
    using assms ok(2) by (simp add: registry_inv_def)
  ultimately show ?thesis by (simp add: registry_inv_def eq)
qed

lemma setattr_email_kept:
  "UserUpdate.email u = None \<Longrightarrow> User.email (foldl setattr r (dict_exclude_unset u)) = User.email r"
  by (simp add: foldl_setattr)

lemma registry_inv_update:
  assumes "registry_inv s"
  shows "registry_inv (snd (update_user s i u))"
proof (cases "map_of (users_db s) i")
  case None
  then show ?thesis using assms by (simp add: update_user_def)
next
  case (Some r)
  show ?thesis
  proof (cases "\<exists>e. UserUpdate.email u = Some e \<and> email_of_other (users_db s) i e")
    case True
    then have "update_user s i u = (Inl ConflictError, s)"
      using Some by (auto intro: update_user_conflict)
    then show ?thesis using assms by simp
  next
    case False
    let ?r' = "foldl setattr r (dict_exclude_unset u)"
    have eq: "update_user s i u = (Inr ?r', s\<lparr>users_db := AList.update i ?r' (users_db s)\<rparr>)"
      using Some False by (intro update_user_ok) auto
    have dk: "distinct (map fst (users_db s))"
      using assms by (simp add: registry_inv_def dict_keys_def sorted_keys_distinct)
    obtain ys zs where yz: "users_db s = ys @ (i, r) # zs"
        "AList.update i ?r' (users_db s) = ys @ (i, ?r') # zs"
        "i \<notin> fst ` set ys" "i \<notin> fst ` set zs"
      using update_present [OF dk Some] by blast
    have id_kept: "User.id' ?r' = User.id' r" by (simp add: foldl_setattr)
    have de: "distinct (map (User.email \<circ> snd) (ys @ (i, r) # zs))"
      using assms by (simp add: registry_inv_def dict_values_def yz(1))
    have others: "\<forall>y \<in> set ys \<union> set zs. (User.email \<circ> snd) y \<noteq> (User.email \<circ> snd) (i, ?r')"
    proof (cases "UserUpdate.email u")
      case None
      then have "User.email ?r' = User.email r" by (rule setattr_email_kept)
      then show ?thesis using de by force
    next
      case (Some e)
      then have "\<not> email_of_other (users_db s) i e" using False by simp
      moreover have "User.email ?r' = e" using Some by (simp add: foldl_setattr)
      ultimately show ?thesis
        using yz(3,4) by (fastforce simp: email_of_other_iff yz(1))
    qed
    have "distinct (map (User.email \<circ> snd) (ys @ (i, ?r') # zs))"
      using de others by (rule distinct_map_replace)
    moreover have keys: "map fst (AList.update i ?r' (users_db s)) = map fst (users_db s)"
      unfolding yz(2) by (simp add: yz(1))
    moreover have "\<forall>(k, x) \<in> set (ys @ (i, ?r') # zs).
        1 \<le> k \<and> k < next_user_id s \<and> User.id' x = k"
      using assms id_kept by (auto simp: registry_inv_def yz(1))
    ultimately show ?thesis
      using assms by (simp add: registry_inv_def eq dict_values_def dict_keys_def yz(2))
  qed
qed

lemma registry_inv_delete:
  assumes "registry_inv s"
  shows "registry_inv (snd (delete_user s i))"
proof -
  have "sorted_wrt (<) (map fst (AList.delete i (users_db s)))"
    using assms by (simp add: registry_inv_def dict_keys_def AList.delete_eq sorted_wrt_map sorted_wrt_filter)
  moreover have "distinct (map (User.email \<circ> snd) (users_db s))"
    using assms by (simp add: registry_inv_def dict_values_def)
  then have "distinct (map (User.email \<circ> snd) (AList.delete i (users_db s)))"
    unfolding AList.delete_eq by (rule distinct_map_filter)
  moreover have "set (AList.delete i (users_db s)) \<subseteq> set (users_db s)"
    by (auto simp: AList.delete_eq)
  ultimately show ?thesis
    using assms by (auto simp: registry_inv_def delete_user_def dict_keys_def dict_values_def)
qed

lemma registry_inv_step: "registry_inv s \<Longrightarrow> registry_inv (step s q)"
  by (cases q)
    (simp_all add: post_users_def put_user_def registry_inv_create registry_inv_update
      registry_inv_delete)

lemma registry_inv_run: "registry_inv s \<Longrightarrow> registry_inv (run s qs)"
  by (induction qs arbitrary: s) (simp_all add: registry_inv_step)


lemma create_user_counter:
  "next_user_id (snd (create_user s body now)) =
     (case fst (create_user s body now) of Inl e \<Rightarrow> next_user_id s | Inr x \<Rightarrow> next_user_id s + 1)"
  by (simp add: create_user_def User_init_def)

lemma update_user_counter: "next_user_id (snd (update_user s i u)) = next_user_id s"
  by (simp add: update_user_def Let_def split: option.splits)

lemma delete_user_counter: "next_user_id (snd (delete_user s i)) = next_user_id s"
  by (simp add: delete_user_def)

lemma step_counter: "next_user_id s \<le> next_user_id (step s q)"
  by (cases q)
    (simp_all add: post_users_def put_user_def create_user_counter update_user_counter
      delete_user_counter split: sum.splits)

lemma run_counter: "next_user_id s \<le> next_user_id (run s qs)"
proof (induction qs arbitrary: s)
  case Nil
  show ?case by simp
next
  case (Cons q qs)
  have "next_user_id s \<le> next_user_id (step s q)" by (rule step_counter)
  also have "\<dots> \<le> next_user_id (run (step s q) qs)" by (rule Cons.IH)
  finally show ?case by simp
qed

lemma run_append: "run s (qs @ qs') = run (run s qs) qs'"
  by (induction qs arbitrary: s) simp_all

lemma update_user_keys: "set (dict_keys (users_db (snd (update_user s j u)))) = set (dict_keys (users_db s))"
proof (cases "map_of (users_db s) j")
  case None
  then show ?thesis by (simp add: update_user_def)
next
  case (Some r)
  then have "j \<in> fst ` set (users_db s)"
    by (meson domI dom_map_of_conv_image_fst [THEN equalityD1, THEN subsetD])
  then show ?thesis
    using Some by (auto simp: update_user_def Let_def dict_keys_def dom_update split: option.splits)
qed

lemma retired_create:
  assumes "retired i s"
  shows "retired i (snd (create_user s body now))"
proof (cases "fst (create_user s body now)")
  case (Inl e)
  then show ?thesis using assms by (simp add: create_user_fail)
next
  case (Inr new_user)
  obtain s' where eq: "create_user s body now = (Inr new_user, s')"
    using Inr by (cases "create_user s body now") simp
  note ok = create_user_ok [OF eq]
  have "set (dict_keys (users_db s')) = insert (next_user_id s) (set (dict_keys (users_db s)))"
    by (simp add: ok(3) dict_keys_def dom_update)
  then show ?thesis
    using assms ok(2) by (auto simp: retired_def eq)
qed

lemma retired_update:
  assumes "retired i s"
  shows "retired i (snd (update_user s j u))"
  using assms by (simp add: retired_def update_user_keys update_user_counter)

lemma retired_delete:
  assumes "retired i s"
  shows "retired i (snd (delete_user s j))"
proof -
  have "set (dict_keys (users_db (snd (delete_user s j)))) \<subseteq> set (dict_keys (users_db s))"
    by (simp add: delete_user_def dict_keys_def dom_delete_subset)
  then show ?thesis
    using assms by (auto simp: retired_def delete_user_counter)
qed

lemma retired_step: "retired i s \<Longrightarrow> retired i (step s q)"
  by (cases q)
    (simp_all add: post_users_def put_user_def retired_create retired_update retired_delete)

lemma retired_run: "retired i s \<Longrightarrow> retired i (run s qs)"
  by (induction qs arbitrary: s) (simp_all add: retired_step)

lemma delete_user_retires:
  assumes "registry_inv s" and "delete_user s i = (Inr resp, s')"
  shows "retired i s'"
proof -
  have present: "map_of (users_db s) i \<noteq> None" and s': "s' = s\<lparr>users_db := AList.delete i (users_db s)\<rparr>"
    using assms(2) by (auto simp: delete_user_def split: if_splits)
  from present obtain r where "(i, r) \<in> set (users_db s)"
    by (auto dest: map_of_SomeD)
  then have "i < next_user_id s"
    using assms(1) by (auto simp: registry_inv_def)
  moreover have "\<forall>k \<in> set (dict_keys (users_db s)). k < next_user_id s"
    using assms(1) by (auto simp: registry_inv_def dict_keys_def)
  ultimately show ?thesis
    by (auto simp: retired_def s' dict_keys_def delete_keys)
qed

lemma assigned_ids_increasing:
  "sorted_wrt (<) (assigned_ids s qs) \<and>
   (\<forall>k \<in> set (assigned_ids s qs). next_user_id s \<le> k \<and> k < next_user_id (run s qs))"
proof (induction qs arbitrary: s)
  case Nil
  show ?case by simp
next
  case (Cons q qs)
  let ?hd = "case q of
        Create body now \<Rightarrow>
          (case fst (post_users s body now) of Inr new_user \<Rightarrow> [User.id' new_user] | Inl e \<Rightarrow> [])
      | _ \<Rightarrow> []"
  have hd: "?hd = [] \<or> (?hd = [next_user_id s] \<and> next_user_id (step s q) = next_user_id s + 1)"
  proof (cases q)
    case (Create body now)
    show ?thesis
    proof (cases "fst (post_users s body now)")
      case (Inl e)
      then show ?thesis using Create by simp
    next
      case (Inr new_user)
      then have valid: "UserCreate_valid body"
        by (auto simp: post_users_def split: if_splits)
      then obtain s' where "create_user s body now = (Inr new_user, s')"
        using Inr by (cases "create_user s body now") (simp add: post_users_def)
      then show ?thesis
        using Create Inr valid create_user_ok(1,2) by (simp add: post_users_def)
    qed
  qed simp_all
  have mono: "next_user_id s \<le> next_user_id (step s q)" by (rule step_counter)
  have tl: "sorted_wrt (<) (assigned_ids (step s q) qs)"
    and tl_bounds: "\<forall>k \<in> set (assigned_ids (step s q) qs).
      next_user_id (step s q) \<le> k \<and> k < next_user_id (run (step s q) qs)"
    using Cons.IH [of "step s q"] by simp_all
  have later: "next_user_id (step s q) \<le> next_user_id (run (step s q) qs)" by (rule run_counter)
  from hd show ?case
  proof
    assume "?hd = []"
    then show ?thesis using tl tl_bounds mono by (auto simp del: step.simps)
  next
    assume "?hd = [next_user_id s] \<and> next_user_id (step s q) = next_user_id s + 1"
    then show ?thesis using tl tl_bounds later by (auto simp del: step.simps)
  qed
qed

text \<open>
  Where the email a request supplies (a null included) is not the email of a record under
  another id, a null for name or email is stored, and the stored record no longer meets the
  constraints of the data model.
\<close>

lemma put_user_stores_null:
  assumes "map_of (users_db s) i = Some r"
    and "UserUpdate_valid u"
    and "UserUpdate.name u = Some None \<or> UserUpdate.email u = Some None"
    and "\<forall>(k, x) \<in> set (users_db s). k \<noteq> i \<longrightarrow> Some (User.email x) \<noteq> UserUpdate.email u"
  shows "\<exists>r'. put_user s i u = (Inr r', s\<lparr>users_db := AList.update i r' (users_db s)\<rparr>) \<and>
           get_user (snd (put_user s i u)) i = Inr r' \<and>
           (UserUpdate.name u = Some None \<longrightarrow> User.name r' = None) \<and>
           (UserUpdate.email u = Some None \<longrightarrow> User.email r' = None) \<and>
           \<not> User_valid r'"
proof -
  have "\<not> (\<exists>e. UserUpdate.email u = Some e \<and> email_of_other (users_db s) i e)"
    using assms(4) by (auto simp: email_of_other_iff)
  then show ?thesis
    using assms(1-3)
    by (auto simp: put_user_def update_user_ok foldl_setattr get_user_def
        update_conv' User_valid_def)
qed

lemma null_name_stored:
  "put_user db1 1 null_name =
     (Inr (john\<lparr>User.name := None\<rparr>), db1\<lparr>users_db := [(1, john\<lparr>User.name := None\<rparr>)]\<rparr>) \<and>
   User_valid john \<and> \<not> User_valid (john\<lparr>User.name := None\<rparr>)"
  by (simp add: db1_def john_def null_name_def UserUpdate_valid_def User_valid_def name_ok_def
      age_ok_def put_user_def update_user_def dict_exclude_unset_def Let_def)

section \<open>Claims\<close>

text \<open>
  C1. For every registry state and every create request whose email equals the email of
  a stored record, \<open>create_user\<close> raises the conflict error (400, "Email already
  registered") and returns the registry as it was: the table and the counter are both
  unchanged.
\<close>

theorem C1_create_conflict:
  assumes "(k, x) \<in> set (users_db s)"
    and "User.email x = Some (UserCreate.email user)"
  shows "create_user s user now = (Inl ConflictError, s)"
proof -
  have "x \<in> set (dict_values (users_db s))"
    using assms(1) by (force simp: dict_values_def)
  then have "email_registered (dict_values (users_db s)) (Some (UserCreate.email user))"
    using assms(2) by (auto simp: email_registered_iff)
  then show ?thesis
    by (simp add: create_user_def ConflictError_def)
qed

theorem C1_create_conflict_witness:
  "create_user db1 \<lparr>UserCreate.name = ''Jane Doe'', email = ''john@example.com'', age = 30\<rparr> 7
     = (Inl ConflictError, db1)"
  using C1_create_conflict
    [of 1 john db1 "\<lparr>UserCreate.name = ''Jane Doe'', email = ''john@example.com'', age = 30\<rparr>" 7]
  by (simp add: db1_def john_def)

text \<open>
  C2. For every valid create request (name of 1 to 100 characters, age from 0 to 150)
  whose email no stored record has, \<open>create_user\<close> returns a record, and \<open>get_user\<close>
  on the returned id in the registry it leaves returns that same record.
\<close>

theorem C2_create_then_get:
  assumes "UserCreate_valid user"
    and "\<forall>x \<in> set (dict_values (users_db s)). User.email x \<noteq> Some (UserCreate.email user)"
  shows "\<exists>new_user s'. create_user s user now = (Inr new_user, s') \<and>
           get_user s' (User.id' new_user) = Inr new_user"
  using assms
  by (simp add: create_user_def email_registered_iff UserCreate_valid_def User_init_def
      get_user_def update_conv')

theorem C2_create_then_get_witness:
  "\<exists>new_user s'. create_user db1 jane_body 1 = (Inr new_user, s') \<and>
           get_user s' (User.id' new_user) = Inr new_user"
  using C2_create_then_get [of jane_body db1 1]
  by (simp add: UserCreate_valid_def jane_body_def name_ok_def age_ok_def db1_def
      dict_values_def john_def)

text \<open>
  C3. For every stored record with id \<open>i\<close> and every update request that supplies an
  email equal to the email of a stored record with another id, \<open>update_user\<close> raises the
  conflict error and returns the registry as it was: the target record keeps every field,
  and so does every other record.
\<close>

theorem C3_update_conflict:
  assumes "map_of (users_db s) i = Some r"
    and "UserUpdate.email u = Some e"
    and "(j, other) \<in> set (users_db s)" and "j \<noteq> i" and "User.email other = e"
  shows "update_user s i u = (Inl ConflictError, s)"
proof -
  have "email_of_other (users_db s) i e"
    using assms(3-5) by (auto simp: email_of_other_iff)
  then show ?thesis
    using assms(1,2) by (simp add: update_user_def ConflictError_def)
qed

theorem C3_update_conflict_witness:
  "update_user db2 2
     \<lparr>UserUpdate.name = None, email = Some (Some ''john@example.com''), age = None,
      is_active = None\<rparr> = (Inl ConflictError, db2)"
  using C3_update_conflict [of db2 2 jane _ "Some ''john@example.com''" 1 john]
  by (simp add: db2_def john_def jane_def)

text \<open>
  C4. For every registry state and all non-negative \<open>skip\<close> and \<open>limit\<close>, \<open>get_users\<close>
  (a total function: it has no failing branch) returns the records of the table in its
  order from offset \<open>skip\<close> on, at most \<open>limit\<close> of them, and none when \<open>skip\<close> is at
  least the number of stored records.
\<close>

theorem C4_list_slice:
  assumes "0 \<le> skip" and "0 \<le> limit"
  shows "get_users s skip limit = take (nat limit) (drop (nat skip) (dict_values (users_db s))) \<and>
         int (length (get_users s skip limit)) \<le> limit \<and>
         (int (length (users_db s)) \<le> skip \<longrightarrow> get_users s skip limit = [])"
  using assms by (auto simp: get_users_def py_slice_nonneg dict_values_def)

theorem C4_list_slice_witness:
  "get_users db2 0 1 = [john] \<and> get_users db2 1 100 = [jane] \<and> get_users db2 2 5 = []"
  using C4_list_slice [of 0 1 db2] C4_list_slice [of 1 100 db2] C4_list_slice [of 2 5 db2]
  by (simp add: db2_def dict_values_def)

text \<open>
  C5. Let \<open>delete_user\<close> succeed on id \<open>i\<close> in a registry reached from the initial one.
  Then after every further sequence of requests \<open>get_user\<close> on \<open>i\<close> raises the not-found
  error, and every creation that succeeds there hands out an id other than \<open>i\<close>.
\<close>

theorem C5_deleted_id_never_returns:
  assumes "delete_user (run init qs) i = (Inr resp, s')"
  shows "get_user (run s' qs') i = Inl NotFoundError \<and>
         (\<forall>body now new_user s''.
            create_user (run s' qs') body now = (Inr new_user, s'') \<longrightarrow> User.id' new_user \<noteq> i)"
proof -
  have "registry_inv (run init qs)"
    by (rule registry_inv_run) (rule registry_inv_init)
  then have "retired i s'" using assms by (rule delete_user_retires)
  then have later: "retired i (run s' qs')" by (rule retired_run)
  then have "map_of (users_db (run s' qs')) i = None"
    by (simp add: retired_def dict_keys_def map_of_eq_None_iff)
  then have "get_user (run s' qs') i = Inl NotFoundError"
    by (simp add: get_user_def NotFoundError_def)
  moreover have "User.id' new_user \<noteq> i"
    if "create_user (run s' qs') body now = (Inr new_user, s'')" for body now new_user s''
    using create_user_ok(1) [OF that] later by (simp add: retired_def)
  ultimately show ?thesis by blast
qed

theorem C5_deleted_id_never_returns_witness:
  "delete_user (run init [Create john_body 0, Create jane_body 1]) 1 =
     (Inr \<lparr>status_code = 204, content = [(''message'', ''User deleted successfully'')]\<rparr>,
      \<lparr>users_db = [(2, jane)], next_user_id = 3\<rparr>) \<and>
   get_user (run \<lparr>users_db = [(2, jane)], next_user_id = 3\<rparr> [Create bob_body 2]) 1
     = Inl NotFoundError \<and>
   map (User.id' \<circ> snd) (users_db (run \<lparr>users_db = [(2, jane)], next_user_id = 3\<rparr> [Create bob_body 2]))
     = [2, 3]"
  using C5_deleted_id_never_returns
    [of "[Create john_body 0, Create jane_body 1]" 1
        "\<lparr>status_code = 204, content = [(''message'', ''User deleted successfully'')]\<rparr>"
        "\<lparr>users_db = [(2, jane)], next_user_id = 3\<rparr>" "[Create bob_body 2]"]
  unfolding db2_reachable
  by (simp add: db2_def delete_user_def HTTP_204_NO_CONTENT_def AList.delete_eq post_users_def
      create_user_def UserCreate_valid_def name_ok_def age_ok_def User_init_def dict_values_def
      bob_body_def john_def jane_def get_user_def NotFoundError_def HTTP_404_NOT_FOUND_def)

text \<open>
  C6. For every stored record and every update request, the record stored under the id
  after \<open>update_user\<close> has the id and the creation time it had, and every field the
  request omitted as it was; when the request omits the email, the uniqueness scan is
  not run and the update succeeds with that record (no conflict error).
\<close>

theorem C6_update_frame:
  assumes "map_of (users_db s) i = Some r"
  shows "\<exists>r'. map_of (users_db (snd (update_user s i u))) i = Some r' \<and>
     User.id' r' = User.id' r \<and> User.created_at r' = User.created_at r \<and>
     (UserUpdate.name u = None \<longrightarrow> User.name r' = User.name r) \<and>
     (UserUpdate.email u = None \<longrightarrow> User.email r' = User.email r) \<and>
     (UserUpdate.age u = None \<longrightarrow> User.age r' = User.age r) \<and>
     (UserUpdate.is_active u = None \<longrightarrow> User.is_active r' = User.is_active r) \<and>
     (UserUpdate.email u = None \<longrightarrow> fst (update_user s i u) = Inr r')"
proof (cases "\<exists>e. UserUpdate.email u = Some e \<and> email_of_other (users_db s) i e")
  case True
  then obtain e where "UserUpdate.email u = Some e" and "email_of_other (users_db s) i e"
    by blast
  then have "update_user s i u = (Inl ConflictError, s)"
    using assms by (rule update_user_conflict [rotated])
  then show ?thesis
    using assms \<open>UserUpdate.email u = Some e\<close> by simp
next
  case False
  let ?r' = "foldl setattr r (dict_exclude_unset u)"
  have "update_user s i u = (Inr ?r', s\<lparr>users_db := AList.update i ?r' (users_db s)\<rparr>)"
    using assms False by (intro update_user_ok) auto
  then show ?thesis
    by (simp add: foldl_setattr update_conv')
qed

theorem C6_update_frame_witness:
  "update_user db2 1 age_only =
     (Inr (john\<lparr>User.age := Some 31\<rparr>),
      db2\<lparr>users_db := [(1, john\<lparr>User.age := Some 31\<rparr>), (2, jane)]\<rparr>)"
  using C6_update_frame [of db2 1 john age_only]
  by (simp add: db2_def john_def age_only_def update_user_def dict_exclude_unset_def Let_def)

text \<open>
  C7. The counter starts at 1 and the table empty. In every registry reached from there by
  a sequence of requests the stored records have pairwise distinct ids and pairwise
  distinct emails, each record's id is its key and lies from 1 to below the counter; the
  counter never decreases along a run, and the ids handed out by the successful creations
  of a run are strictly increasing (none is handed out twice, deletions or not) and all
  below the final counter.
\<close>

theorem C7_unique_ids_and_emails:
  "next_user_id init = 1 \<and> users_db init = [] \<and>
   distinct (map User.id' (dict_values (users_db (run init qs)))) \<and>
   distinct (map User.email (dict_values (users_db (run init qs)))) \<and>
   (\<forall>(k, x) \<in> set (users_db (run init qs)). User.id' x = k \<and> 1 \<le> k \<and> k < next_user_id (run init qs)) \<and>
   next_user_id (run init qs) \<le> next_user_id (run init (qs @ qs')) \<and>
   sorted_wrt (<) (assigned_ids init (qs @ qs')) \<and>
   (\<forall>k \<in> set (assigned_ids init (qs @ qs')). 1 \<le> k \<and> k < next_user_id (run init (qs @ qs')))"
proof -
  have inv: "registry_inv (run init qs)"
    by (rule registry_inv_run) (rule registry_inv_init)
  have ids: "map User.id' (dict_values (users_db (run init qs))) = dict_keys (users_db (run init qs))"
    using inv by (auto simp: registry_inv_def dict_values_def dict_keys_def)
  have "distinct (dict_keys (users_db (run init qs)))"
    using inv by (simp add: registry_inv_def sorted_keys_distinct)
  then have "distinct (map User.id' (dict_values (users_db (run init qs))))"
    by (simp only: ids)
  moreover have "distinct (map User.email (dict_values (users_db (run init qs))))"
    using inv by (simp add: registry_inv_def)
  moreover have "\<forall>(k, x) \<in> set (users_db (run init qs)).
      User.id' x = k \<and> 1 \<le> k \<and> k < next_user_id (run init qs)"
    using inv by (auto simp: registry_inv_def)
  moreover have "next_user_id (run init qs) \<le> next_user_id (run init (qs @ qs'))"
    by (simp add: run_append run_counter)
  moreover have "sorted_wrt (<) (assigned_ids init (qs @ qs'))"
    and "\<forall>k \<in> set (assigned_ids init (qs @ qs')). 1 \<le> k \<and> k < next_user_id (run init (qs @ qs'))"
    using assigned_ids_increasing [of init "qs @ qs'"] by (auto simp: init_def)
  ultimately show ?thesis by (simp add: init_def)
qed

theorem C7_unique_ids_and_emails_witness:
  "run init three_creates =
     \<lparr>users_db = [(2, jane),
        (3, \<lparr>User.name = Some ''Bob'', email = Some ''john@example.com'', age = Some 41,
              id' = 3, created_at = 2, is_active = Some True\<rparr>)],
      next_user_id = 4\<rparr> \<and>
   assigned_ids init three_creates = [1, 2, 3] \<and>
   distinct (map User.email (dict_values (users_db (run init three_creates))))"
  using C7_unique_ids_and_emails [of three_creates "[]"]
  by (simp add: three_creates_def init_def post_users_def create_user_def UserCreate_valid_def
      name_ok_def age_ok_def User_init_def dict_values_def john_body_def jane_body_def
      bob_body_def john_def jane_def delete_user_def AList.delete_eq)

text \<open>
  C8. For every id present in the registry, \<open>delete_user\<close> removes the record (a lookup
  of the id then fails with the not-found error) and returns a response with status 204
  whose content is the one-entry object "message": "User deleted successfully". The
  payload the handler builds is therefore not empty.
\<close>

theorem C8_delete_response:
  assumes "map_of (users_db s) i = Some r"
  shows "delete_user s i =
           (Inr \<lparr>status_code = 204, content = [(''message'', ''User deleted successfully'')]\<rparr>,
            s\<lparr>users_db := AList.delete i (users_db s)\<rparr>) \<and>
         get_user (snd (delete_user s i)) i = Inl NotFoundError"
  using assms
  by (simp add: delete_user_def HTTP_204_NO_CONTENT_def get_user_def NotFoundError_def delete_conv')

theorem C8_delete_response_witness:
  "delete_user db1 1 =
     (Inr \<lparr>status_code = 204, content = [(''message'', ''User deleted successfully'')]\<rparr>,
      \<lparr>users_db = [], next_user_id = 2\<rparr>)"
  using C8_delete_response [of db1 1 john]
  by (simp add: db1_def AList.delete_eq)

text \<open>
  C9. An update request that sets name or email to null is not always accepted. On the
  registry of two records, the request setting the first record's email to null passes
  validation and is accepted: the null is stored. The same request for the second record
  then passes validation as well, and the handler raises the conflict error ("Email
  already registered") and stores nothing: the uniqueness scan compares the null of the
  request with the null now stored in the first record.
\<close>

theorem C9_null_email_rejected:
  "run init [Create john_body 0, Create jane_body 1] = db2 \<and>
   UserUpdate_valid null_email \<and>
   put_user db2 1 null_email = (Inr (john\<lparr>User.email := None\<rparr>), db2_null) \<and>
   get_user db2_null 2 = Inr jane \<and>
   put_user db2_null 2 null_email = (Inl ConflictError, db2_null)"
  by (simp add: init_def post_users_def create_user_def UserCreate_valid_def name_ok_def
      age_ok_def User_init_def dict_values_def john_body_def jane_body_def john_def
      jane_def put_user_def update_user_def UserUpdate_valid_def null_email_def
      dict_exclude_unset_def db2_def db2_null_def get_user_def ConflictError_def Let_def)

text \<open>
  C10. With \<open>skip = -1\<close>, on every non-empty registry with fewer records than \<open>limit\<close>,
  \<open>get_users\<close> returns the last record of the table, neither an empty list nor a
  failure: the negative start of the slice counts from the end.
\<close>

theorem C10_negative_skip:
  assumes "users_db s \<noteq> []" and "int (length (users_db s)) < limit"
  shows "get_users s (- 1) limit = [last (dict_values (users_db s))]"
proof -
  let ?xs = "dict_values (users_db s)"
  have ne: "?xs \<noteq> []" using assms(1) by (simp add: dict_values_def)
  have len: "int (length ?xs) < limit" using assms(2) by (simp add: dict_values_def)
  have lo: "slice_bound (length ?xs) (- 1) = length ?xs - 1"
    using ne by (cases ?xs) (auto simp: slice_bound_def)
  have hi: "slice_bound (length ?xs) (limit - 1) = length ?xs"
    using ne len by (auto simp: slice_bound_def)
  have one: "length ?xs - (length ?xs - 1) = 1"
    using ne by (cases ?xs) auto
  have "drop (length ?xs - 1) ?xs = [last ?xs]"
    using ne by (rule drop_to_last)
  then show ?thesis
    by (simp add: get_users_def py_slice_def lo hi one Let_def del: One_nat_def)
qed

theorem C10_negative_skip_witness:
  "get_users db2 (- 1) 100 = [jane]"
  using C10_negative_skip [of db2 100]
  by (simp add: db2_def dict_values_def)

end
